theory Spec2Isabelle
  imports Main
begin

section \<open>Attendance routes: the data model\<close>

text \<open>
  The development embeds the request handlers of \<^verbatim>\<open>src/routes/attendance.py\<close>:
  \<^verbatim>\<open>get_attendances\<close>, \<^verbatim>\<open>create_attendance\<close>, \<^verbatim>\<open>create_bulk_attendance\<close> and
  \<^verbatim>\<open>update_attendance\<close>. A handler is a function from the committed database and the
  request to the committed database after the request and the HTTP response.

  A key of a JSON object that may be absent is an \<open>option\<close>. Ids are integers of any
  size, \<^verbatim>\<open>present\<close> is a boolean and \<^verbatim>\<open>notes\<close> is a string or \<^verbatim>\<open>null\<close>. The value of
  \<^verbatim>\<open>date\<close> and an element of the \<^verbatim>\<open>attendances\<close> array are any JSON value: a string or
  something else, an object or something else.
\<close>

datatype date = Date (year: nat) (month: nat) (day: nat)

text \<open>
  Modelled from the spec: the \<^verbatim>\<open>Attendance\<close> model class (\<^verbatim>\<open>models/attendance.py\<close>) is not
  among the sources. A row has a synthetic id and the attributes student_id, class_id,
  date, present, notes, recorded_by and recorded_at (the fields \<open>att_id\<close> and
  \<open>att_notes\<close> are the source's \<^verbatim>\<open>id\<close> and \<^verbatim>\<open>notes\<close>); timestamps are natural numbers.
\<close>

record attendance =
  att_id :: nat
  student_id :: int
  class_id :: int
  date :: date
  present :: bool
  att_notes :: "string option"
  recorded_by :: int
  recorded_at :: nat

text \<open>
  Modelled from the spec: \<^verbatim>\<open>to_dict\<close> serialises the identity and every attribute. The id
  is optional in the serialised form: an object that was added to the session and not
  yet flushed has none.
\<close>

record attendance_dict =
  d_id :: "nat option"
  d_student_id :: int
  d_class_id :: int
  d_date :: date
  d_present :: bool
  d_notes :: "string option"
  d_recorded_by :: int
  d_recorded_at :: nat

definition to_dict :: "attendance \<Rightarrow> attendance_dict" where
  "to_dict a =
     \<lparr>d_id = Some (att_id a), d_student_id = student_id a, d_class_id = class_id a,
      d_date = date a, d_present = present a, d_notes = att_notes a,
      d_recorded_by = recorded_by a, d_recorded_at = recorded_at a\<rparr>"

text \<open>
  The committed database. Of students and classes the handlers only ask whether an id
  exists (\<^verbatim>\<open>Student.query.get\<close>, \<^verbatim>\<open>Class.query.get\<close>); the attendance table is the list
  of its rows in the order queries return them.
\<close>

record db =
  students :: "int set"
  classes :: "int set"
  attendances :: "attendance list"

text \<open>
  What a handler reads from its surroundings: \<^verbatim>\<open>datetime.strptime(s, '%Y-%m-%d').date()\<close>
  (\<open>None\<close> stands for its \<^verbatim>\<open>ValueError\<close>), \<^verbatim>\<open>current_user.id\<close>, the clock
  (\<open>utcnow env k\<close> is what \<^verbatim>\<open>datetime.utcnow()\<close> returns while the handler works on the
  \<open>k\<close>-th element of a batch; single-record handlers read \<open>utcnow env 0\<close>), whether
  the store accepts \<^verbatim>\<open>db.session.commit()\<close>, and the database driver: \<open>bind_error env i\<close>
  is \<open>None\<close> when the driver can pass the integer \<open>i\<close> to a query, and the text of the
  exception it raises otherwise (sqlite3 raises \<^verbatim>\<open>OverflowError\<close> outside the signed 64-bit
  range).
\<close>

record env =
  strptime :: "string \<Rightarrow> date option"
  current_user :: int
  utcnow :: "nat \<Rightarrow> nat"
  commit_ok :: bool
  bind_error :: "int \<Rightarrow> string option"

text \<open>The exceptions the handlers meet; \<open>DriverError\<close> is the driver's, with its text.\<close>

datatype exn =
    KeyError string
  | TypeError
  | AttributeError
  | NotFound
  | CommitError
  | DriverError string

text \<open>
  A response is a body and a status code. \<open>Error m\<close> is \<^verbatim>\<open>{'error': m}\<close> with a message
  the handler writes itself; \<open>Failure e\<close> is \<^verbatim>\<open>{'error': str(e)}\<close> of the outermost
  \<^verbatim>\<open>except Exception as e\<close>; \<open>Bulk m created errors\<close> is the body of a bulk success.
\<close>

datatype body =
    Error string
  | Failure exn
  | Bulk string "attendance_dict list" "string list"
  | Single attendance_dict
  | Listing "attendance_dict list"

type_synonym response = "body \<times> nat"

subsection \<open>Formatting\<close>

fun str_nat :: "nat \<Rightarrow> string" where
  "str_nat n =
     (if n < 10 then [char_of (48 + n)]
      else str_nat (n div 10) @ [char_of (48 + n mod 10)])"

declare str_nat.simps [simp del]

definition str_int :: "int \<Rightarrow> string" where
  "str_int i = (if i < 0 then CHR ''-'' # str_nat (nat (- i)) else str_nat (nat i))"

text \<open>\<^verbatim>\<open>str(e)\<close> of a \<^verbatim>\<open>KeyError\<close> is the \<^verbatim>\<open>repr\<close> of the key, in single quotes, and
  that of a driver's exception is its text. The text of the other exceptions is the
  interpreter's; no handler formats it into a message of its own, and the model keeps
  only the exception's name.\<close>

fun str_exn :: "exn \<Rightarrow> string" where
  "str_exn (KeyError k) = [CHR 0x27] @ k @ [CHR 0x27]"
| "str_exn TypeError = ''TypeError''"
| "str_exn AttributeError = ''AttributeError''"
| "str_exn NotFound = ''NotFound''"
| "str_exn CommitError = ''CommitError''"
| "str_exn (DriverError txt) = txt"

subsection \<open>Queries\<close>

definition matches :: "int \<Rightarrow> int \<Rightarrow> date \<Rightarrow> attendance \<Rightarrow> bool" where
  "matches sid cid d r \<longleftrightarrow> student_id r = sid \<and> class_id r = cid \<and> date r = d"

text \<open>
  \<^verbatim>\<open>Student.query.get(i)\<close> and \<^verbatim>\<open>Class.query.get(i)\<close>, as far as the handlers use them:
  whether a row with the id exists. The id of a stored row is one the driver can pass;
  for another id the lookup raises when the driver cannot pass it.
\<close>

definition query_get :: "env \<Rightarrow> int set \<Rightarrow> int \<Rightarrow> exn + bool" where
  "query_get env ids i =
     (if i \<in> ids then Inr True
      else (case bind_error env i of None \<Rightarrow> Inr False | Some txt \<Rightarrow> Inl (DriverError txt)))"

text \<open>Mutating the object a query returned changes that row of the table, the first
  one the query's predicate selects.\<close>

fun update_first :: "('a \<Rightarrow> bool) \<Rightarrow> ('a \<Rightarrow> 'a) \<Rightarrow> 'a list \<Rightarrow> 'a list" where
  "update_first P f [] = []"
| "update_first P f (x # xs) = (if P x then f x # xs else x # update_first P f xs)"

text \<open>The id the store gives to an inserted row: one no row of the table has.\<close>

definition fresh_id :: "attendance list \<Rightarrow> nat" where
  "fresh_id rows = Suc (fold max (map att_id rows) 0)"

section \<open>Request bodies\<close>

text \<open>\<^verbatim>\<open>d.get(key, default)\<close> on a key that may be absent.\<close>

definition dict_get :: "'a option \<Rightarrow> 'a \<Rightarrow> 'a" where
  "dict_get v dflt = (case v of None \<Rightarrow> dflt | Some x \<Rightarrow> x)"

text \<open>
  The value of a \<^verbatim>\<open>date\<close> key: \<open>Str\<close> is a JSON string, \<open>NotStr\<close> any other JSON value (a
  number, \<^verbatim>\<open>null\<close>, a list, an object), on which \<^verbatim>\<open>datetime.strptime\<close> raises \<^verbatim>\<open>TypeError\<close>.

  One element of the \<^verbatim>\<open>attendances\<close> array. \<open>Obj\<close> is a JSON object with the keys
  \<^verbatim>\<open>student_id\<close>, \<^verbatim>\<open>present\<close> and \<^verbatim>\<open>notes\<close>, each possibly absent (a present \<^verbatim>\<open>notes\<close>
  may be \<^verbatim>\<open>null\<close>); \<open>NonObj\<close> is any other JSON value (a number, a string, a list,
  \<^verbatim>\<open>null\<close>), which has neither string subscripts nor a \<^verbatim>\<open>get\<close> method.
\<close>

datatype text_value = Str string | NotStr

record entry_obj =
  e_student_id :: "int option"
  e_present :: "bool option"
  e_notes :: "string option option"

datatype entry = Obj entry_obj | NonObj

record bulk_request =
  b_class_id :: "int option"
  b_date :: "text_value option"
  b_attendances :: "entry list option"



text \<open>The query string of the list operation: \<^verbatim>\<open>request.args.get(name, type=int)\<close> is
  \<open>None\<close> when the parameter is absent or is not an integer.\<close>

record list_args =
  q_student_id :: "int option"
  q_class_id :: "int option"
  q_date :: "string option"

section \<open>The handlers\<close>

subsection \<open>\<^verbatim>\<open>get_attendances\<close>\<close>

text \<open>
  \<^verbatim>\<open>if student_id:\<close> tests the truth value of \<^verbatim>\<open>None\<close> or of an integer, \<^verbatim>\<open>if date:\<close> that
  of \<^verbatim>\<open>None\<close> or of a string: \<^verbatim>\<open>None\<close>, \<^verbatim>\<open>0\<close> and the empty string are false.
\<close>

text \<open>\<^verbatim>\<open>query.all()\<close>: the driver is handed the integers the filters compare with, in
  their order, and raises on the first it cannot pass.\<close>

definition query_all :: "env \<Rightarrow> int list \<Rightarrow> attendance list \<Rightarrow> exn + attendance list" where
  "query_all env params rows =
     (case List.map_filter (bind_error env) params of
        [] \<Rightarrow> Inr rows
      | txt # _ \<Rightarrow> Inl (DriverError txt))"

definition get_attendances :: "env \<Rightarrow> db \<Rightarrow> list_args \<Rightarrow> response" where
  "get_attendances env db args =
     (let query = attendances db;
          params = [];
          (query, params) =
            (case q_student_id args of
               None \<Rightarrow> (query, params)
             | Some sid \<Rightarrow>
                 if sid \<noteq> 0 then (filter (\<lambda>r. student_id r = sid) query, params @ [sid])
                 else (query, params));
          (query, params) =
            (case q_class_id args of
               None \<Rightarrow> (query, params)
             | Some cid \<Rightarrow>
                 if cid \<noteq> 0 then (filter (\<lambda>r. class_id r = cid) query, params @ [cid])
                 else (query, params));
          answer = (\<lambda>query. case query_all env params query of
                               Inl e \<Rightarrow> (Failure e, 500)
                             | Inr found \<Rightarrow> (Listing (map to_dict found), 200))
      in case q_date args of
           None \<Rightarrow> answer query
         | Some ds \<Rightarrow>
             if ds \<noteq> [] then
               (case strptime env ds of
                  None \<Rightarrow> (Error ''Invalid date format. Use YYYY-MM-DD'', 400)
                | Some attendance_date \<Rightarrow>
                    answer (filter (\<lambda>r. date r = attendance_date) query))
             else answer query)"

subsection \<open>\<^verbatim>\<open>create_attendance\<close>\<close>

text \<open>
  Modelled from the spec: the constructor \<^verbatim>\<open>Attendance(...)\<close> is not among the sources; a
  new record carries the given fields plus recorded_by and recorded_at. The store
  assigns the id when the row is inserted.

  In the handlers, \<^verbatim>\<open>except ValueError\<close> around \<^verbatim>\<open>strptime\<close> does not catch the
  \<^verbatim>\<open>TypeError\<close> of a date that is not a string: it reaches the outermost
  \<^verbatim>\<open>except Exception\<close>, which rolls back and answers 500, as it does for an exception of
  a lookup.
\<close>

definition new_attendance ::
  "attendance list \<Rightarrow> int \<Rightarrow> int \<Rightarrow> date \<Rightarrow> bool \<Rightarrow> string option \<Rightarrow> int \<Rightarrow> nat \<Rightarrow> attendance" where
  "new_attendance rows sid cid d p n u t =
     \<lparr>att_id = fresh_id rows, student_id = sid, class_id = cid, date = d, present = p,
      att_notes = n, recorded_by = u, recorded_at = t\<rparr>"


subsection \<open>\<^verbatim>\<open>create_bulk_attendance\<close>\<close>

text \<open>
  Modelled from the spec: the session \<^verbatim>\<open>db.session\<close> is a unit of work over the attendance
  table. Inside one request the handler works on \<open>table\<close>, which starts as the
  committed table; a staged insert is visible to the lookups that follow it in the same
  request (the session flushes before it queries). A commit that succeeds makes \<open>table\<close>
  the committed table; a rollback, or a commit that fails, leaves the committed table
  as it was. Next to the table the loop carries its two result lists.
\<close>

record bulk_state =
  table :: "attendance list"
  created_records :: "attendance_dict list"
  errors :: "string list"

text \<open>
  The body of the inner \<^verbatim>\<open>try\<close>, for the \<open>k\<close>-th element. \<^verbatim>\<open>attendance_data['student_id']\<close>
  raises \<^verbatim>\<open>TypeError\<close> on a value that is not an object and \<^verbatim>\<open>KeyError\<close> on an object
  without the key; the student lookup raises on an id the driver cannot pass. The
  serialised form of a new record is taken right after \<^verbatim>\<open>db.session.add\<close>, before any
  flush.
\<close>

definition try_entry ::
  "env \<Rightarrow> db \<Rightarrow> int \<Rightarrow> date \<Rightarrow> nat \<Rightarrow> bulk_state \<Rightarrow> entry \<Rightarrow> exn + bulk_state" where
  "try_entry env db cid attendance_date k s attendance_data =
     (case attendance_data of
        NonObj \<Rightarrow> Inl TypeError
      | Obj e \<Rightarrow>
     (case e_student_id e of
        None \<Rightarrow> Inl (KeyError ''student_id'')
      | Some sid \<Rightarrow>
     (case query_get env (students db) sid of
        Inl exc \<Rightarrow> Inl exc
      | Inr False \<Rightarrow>
          Inr (s\<lparr>errors := errors s @ [''Student '' @ str_int sid @ '' not found'']\<rparr>)
      | Inr True \<Rightarrow>
          (case find (matches sid cid attendance_date) (table s) of
             Some existing \<Rightarrow>
               (let existing = existing\<lparr>present := dict_get (e_present e) True,
                                        att_notes := dict_get (e_notes e) None,
                                        recorded_by := current_user env,
                                        recorded_at := utcnow env k\<rparr>
                in Inr (s\<lparr>table := update_first (matches sid cid attendance_date)
                                       (\<lambda>_. existing) (table s),
                          created_records := created_records s @ [to_dict existing]\<rparr>))
           | None \<Rightarrow>
               (let attendance =
                      new_attendance (table s) sid cid attendance_date
                        (dict_get (e_present e) True) (dict_get (e_notes e) None)
                        (current_user env) (utcnow env k)
                in Inr (s\<lparr>table := table s @ [attendance],
                          created_records :=
                            created_records s @ [(to_dict attendance)\<lparr>d_id := None\<rparr>]\<rparr>))))))"

text \<open>
  The inner \<^verbatim>\<open>except Exception as e\<close>. Its message calls
  \<^verbatim>\<open>attendance_data.get("student_id", "unknown")\<close>; on a value that is not an object the
  call raises \<^verbatim>\<open>AttributeError\<close> inside the handler, which leaves the loop.
\<close>

definition except_entry :: "bulk_state \<Rightarrow> entry \<Rightarrow> exn \<Rightarrow> exn + bulk_state" where
  "except_entry s attendance_data e =
     (case attendance_data of
        NonObj \<Rightarrow> Inl AttributeError
      | Obj obj \<Rightarrow>
          Inr (s\<lparr>errors := errors s @
                 [''Error processing student '' @
                  (case e_student_id obj of None \<Rightarrow> ''unknown'' | Some sid \<Rightarrow> str_int sid) @
                  '': '' @ str_exn e]\<rparr>))"

definition process_entry ::
  "env \<Rightarrow> db \<Rightarrow> int \<Rightarrow> date \<Rightarrow> nat \<Rightarrow> bulk_state \<Rightarrow> entry \<Rightarrow> exn + bulk_state" where
  "process_entry env db cid attendance_date k s attendance_data =
     (case try_entry env db cid attendance_date k s attendance_data of
        Inl e \<Rightarrow> except_entry s attendance_data e
      | Inr s' \<Rightarrow> Inr s')"

text \<open>The \<^verbatim>\<open>for\<close> loop over \<^verbatim>\<open>data['attendances']\<close>; \<open>k\<close> counts the elements already
  processed. An exception that leaves an element's handler ends the loop.\<close>

fun bulk_loop ::
  "env \<Rightarrow> db \<Rightarrow> int \<Rightarrow> date \<Rightarrow> nat \<Rightarrow> bulk_state \<Rightarrow> entry list \<Rightarrow> exn + bulk_state" where
  "bulk_loop env db cid attendance_date k s [] = Inr s"
| "bulk_loop env db cid attendance_date k s (attendance_data # rest) =
     (case process_entry env db cid attendance_date k s attendance_data of
        Inl e \<Rightarrow> Inl e
      | Inr s' \<Rightarrow> bulk_loop env db cid attendance_date (Suc k) s' rest)"

definition create_bulk_attendance :: "env \<Rightarrow> db \<Rightarrow> bulk_request \<Rightarrow> db \<times> response" where
  "create_bulk_attendance env db data =
     (case b_class_id data of
        None \<Rightarrow> (db, Error ''class_id is required'', 400)
      | Some cid \<Rightarrow>
     (case b_date data of
        None \<Rightarrow> (db, Error ''date is required'', 400)
      | Some date_value \<Rightarrow>
     (case b_attendances data of
        None \<Rightarrow> (db, Error ''attendances is required'', 400)
      | Some entries \<Rightarrow>
     (case date_value of
        NotStr \<Rightarrow> (db, Failure TypeError, 500)
      | Str ds \<Rightarrow>
     (case strptime env ds of
        None \<Rightarrow> (db, Error ''Invalid date format. Use YYYY-MM-DD'', 400)
      | Some attendance_date \<Rightarrow>
     (case query_get env (classes db) cid of
        Inl e \<Rightarrow> (db, Failure e, 500)
      | Inr False \<Rightarrow> (db, Error ''Class not found'', 404)
      | Inr True \<Rightarrow>
          (case bulk_loop env db cid attendance_date 0
                  \<lparr>table = attendances db, created_records = [], errors = []\<rparr> entries of
             Inl e \<Rightarrow> (db, Failure e, 500)
           | Inr s \<Rightarrow>
               if commit_ok env
               then (db\<lparr>attendances := table s\<rparr>,
                     Bulk (''Processed '' @ str_nat (length (created_records s)) @
                           '' attendance records'')
                          (created_records s) (errors s),
                     201)
               else (db, Failure CommitError, 500))))))))"

subsection \<open>\<^verbatim>\<open>update_attendance\<close>\<close>


section \<open>Vocabulary of the properties\<close>

text \<open>What identifies a row and what must be unique: the id with the triple
  (student_id, class_id, date), and the triple alone.\<close>

definition key :: "attendance \<Rightarrow> nat \<times> int \<times> int \<times> date" where
  "key r = (att_id r, student_id r, class_id r, date r)"

definition triple :: "attendance \<Rightarrow> int \<times> int \<times> date" where
  "triple r = (student_id r, class_id r, date r)"

definition unique_triples :: "attendance list \<Rightarrow> bool" where
  "unique_triples rows = distinct (map triple rows)"


text \<open>The four attributes a bulk entry writes: present, notes, recorded_by, recorded_at.\<close>

type_synonym vals = "bool \<times> string option \<times> int \<times> nat"

definition overwrite :: "vals \<Rightarrow> attendance \<Rightarrow> attendance" where
  "overwrite v r =
     (case v of (p, n, u, t) \<Rightarrow>
        r\<lparr>present := p, att_notes := n, recorded_by := u, recorded_at := t\<rparr>)"

definition entry_vals :: "env \<Rightarrow> nat \<Rightarrow> entry_obj \<Rightarrow> vals" where
  "entry_vals env k e =
     (dict_get (e_present e) True, dict_get (e_notes e) None, current_user env, utcnow env k)"

text \<open>An element of a batch has a resolvable student when it is an object whose
  \<^verbatim>\<open>student_id\<close> is the id of a student (\<open>S\<close> is the set of student ids); \<open>upsert_of\<close>
  is then the student and the values the \<open>k\<close>-th element writes.\<close>

definition resolved :: "int set \<Rightarrow> entry \<Rightarrow> int option" where
  "resolved S e =
     (case e of
        NonObj \<Rightarrow> None
      | Obj obj \<Rightarrow>
          (case e_student_id obj of
             None \<Rightarrow> None
           | Some sid \<Rightarrow> if sid \<in> S then Some sid else None))"

definition resolvable :: "db \<Rightarrow> entry \<Rightarrow> bool" where
  "resolvable db e = (resolved (students db) e \<noteq> None)"

definition upsert_of :: "env \<Rightarrow> int set \<Rightarrow> nat \<Rightarrow> entry \<Rightarrow> (int \<times> vals) option" where
  "upsert_of env S k e =
     (case e of
        NonObj \<Rightarrow> None
      | Obj obj \<Rightarrow>
          (case resolved S e of
             None \<Rightarrow> None
           | Some sid \<Rightarrow> Some (sid, entry_vals env k obj)))"

text \<open>The per-entry error messages of one element, as the response lists them.\<close>

definition entry_errors :: "env \<Rightarrow> db \<Rightarrow> entry \<Rightarrow> string list" where
  "entry_errors env db e =
     (case e of
        NonObj \<Rightarrow> []
      | Obj obj \<Rightarrow>
          (case e_student_id obj of
             None \<Rightarrow> [''Error processing student unknown: '' @ str_exn (KeyError ''student_id'')]
           | Some sid \<Rightarrow>
               if sid \<in> students db then []
               else (case bind_error env sid of
                       None \<Rightarrow> [''Student '' @ str_int sid @ '' not found'']
                     | Some txt \<Rightarrow>
                         [''Error processing student '' @ str_int sid @ '': '' @ txt])))"

text \<open>The two result lists of a response (empty for a response that has none).\<close>

definition created_of :: "response \<Rightarrow> attendance_dict list" where
  "created_of resp = (case fst resp of Bulk m created errs \<Rightarrow> created | _ \<Rightarrow> [])"

definition errors_of :: "response \<Rightarrow> string list" where
  "errors_of resp = (case fst resp of Bulk m created errs \<Rightarrow> errs | _ \<Rightarrow> [])"

section \<open>The loop's effect on the table, in closed form\<close>

text \<open>One resolvable element either overwrites the first row of its triple or appends a
  row; \<open>upsert_all\<close> is the table the loop builds from \<open>rows\<close>.\<close>

definition new_row :: "attendance list \<Rightarrow> int \<Rightarrow> int \<Rightarrow> date \<Rightarrow> vals \<Rightarrow> attendance" where
  "new_row rows sid cid d v =
     (case v of (p, n, u, t) \<Rightarrow> new_attendance rows sid cid d p n u t)"

definition upsert :: "int \<Rightarrow> date \<Rightarrow> int \<Rightarrow> vals \<Rightarrow> attendance list \<Rightarrow> attendance list" where
  "upsert cid d sid v rows =
     (case find (matches sid cid d) rows of
        Some existing \<Rightarrow> update_first (matches sid cid d) (overwrite v) rows
      | None \<Rightarrow> rows @ [new_row rows sid cid d v])"

fun upsert_all ::
  "env \<Rightarrow> int set \<Rightarrow> int \<Rightarrow> date \<Rightarrow> nat \<Rightarrow> attendance list \<Rightarrow> entry list \<Rightarrow> attendance list" where
  "upsert_all env S cid d k rows [] = rows"
| "upsert_all env S cid d k rows (e # es) =
     upsert_all env S cid d (Suc k)
       (case upsert_of env S k e of None \<Rightarrow> rows | Some (sid, v) \<Rightarrow> upsert cid d sid v rows) es"

text \<open>
  The same table, built in two passes: \<open>insert_missing\<close> appends a row for every student
  of the batch whose triple has none, and \<open>overwrite_firsts\<close> writes into the first row of
  each student's triple the values \<open>last_vals\<close> collects, those of the student's last
  element.
\<close>

fun insert_missing ::
  "env \<Rightarrow> int set \<Rightarrow> int \<Rightarrow> date \<Rightarrow> nat \<Rightarrow> attendance list \<Rightarrow> entry list \<Rightarrow> attendance list" where
  "insert_missing env S cid d k rows [] = rows"
| "insert_missing env S cid d k rows (e # es) =
     insert_missing env S cid d (Suc k)
       (case upsert_of env S k e of
          None \<Rightarrow> rows
        | Some (sid, v) \<Rightarrow>
            (case find (matches sid cid d) rows of
               Some existing \<Rightarrow> rows
             | None \<Rightarrow> rows @ [new_row rows sid cid d v])) es"

fun last_vals :: "env \<Rightarrow> int set \<Rightarrow> nat \<Rightarrow> (int \<rightharpoonup> vals) \<Rightarrow> entry list \<Rightarrow> (int \<rightharpoonup> vals)" where
  "last_vals env S k f [] = f"
| "last_vals env S k f (e # es) =
     last_vals env S (Suc k)
       (case upsert_of env S k e of None \<Rightarrow> f | Some (sid, v) \<Rightarrow> f(sid \<mapsto> v)) es"

fun overwrite_firsts :: "int \<Rightarrow> date \<Rightarrow> (int \<rightharpoonup> vals) \<Rightarrow> attendance list \<Rightarrow> attendance list" where
  "overwrite_firsts cid d f [] = []"
| "overwrite_firsts cid d f (r # rs) =
     (if class_id r = cid \<and> date r = d then
        (case f (student_id r) of None \<Rightarrow> r | Some v \<Rightarrow> overwrite v r) #
        overwrite_firsts cid d (f(student_id r := None)) rs
      else r # overwrite_firsts cid d f rs)"


section \<open>Example data\<close>

text \<open>A class 5 with the students 1 and 2, a parser that knows one day, the acting
  user 7, a clock that starts at 100 and the sqlite3 driver.\<close>

definition ex_env :: env where
  "ex_env = \<lparr>strptime = (\<lambda>s. if s = ''2024-03-01'' then Some (Date 2024 3 1) else None),
             current_user = 7, utcnow = (\<lambda>k. 100 + k), commit_ok = True,
             bind_error = (\<lambda>i. if - 9223372036854775808 \<le> i \<and> i < 9223372036854775808
                                then None
                                else Some ''Python int too large to convert to SQLite INTEGER'')\<rparr>"

definition ex_db :: db where
  "ex_db = \<lparr>students = {1, 2}, classes = {5}, attendances = []\<rparr>"

definition ex_row :: attendance where
  "ex_row = \<lparr>att_id = 1, student_id = 1, class_id = 5, date = Date 2024 3 1, present = True,
             att_notes = None, recorded_by = 7, recorded_at = 100\<rparr>"

definition ex_entry :: "int \<Rightarrow> bool \<Rightarrow> entry" where
  "ex_entry sid p = Obj \<lparr>e_student_id = Some sid, e_present = Some p, e_notes = None\<rparr>"

definition ex_batch :: "entry list \<Rightarrow> bulk_request" where
  "ex_batch es =
     \<lparr>b_class_id = Some 5, b_date = Some (Str ''2024-03-01''), b_attendances = Some es\<rparr>"

text \<open>A later request by another user, a store that refuses the commit, the database
  after student 1 was recorded, and a batch whose date is written day first.\<close>

definition ex_other :: env where
  "ex_other = ex_env\<lparr>current_user := 8, utcnow := (\<lambda>k. 200 + k)\<rparr>"

definition ex_failing :: env where
  "ex_failing = ex_env\<lparr>commit_ok := False\<rparr>"

definition ex_db1 :: db where
  "ex_db1 = ex_db\<lparr>attendances := [ex_row]\<rparr>"

definition ex_bad_date :: bulk_request where
  "ex_bad_date = \<lparr>b_class_id = Some 5, b_date = Some (Str ''03-01-2024''),
                  b_attendances = Some [ex_entry 1 True]\<rparr>"

section \<open>Facts about the queries\<close>

lemma length_update_first [simp]: "length (update_first P f xs) = length xs"
  by (induction xs) auto

lemma map_update_first:
  "(\<And>x. P x \<Longrightarrow> g (f x) = g x) \<Longrightarrow> map g (update_first P f xs) = map g xs"
  by (induction xs) auto


lemma update_first_const:
  "find P xs = Some x \<Longrightarrow> update_first P (\<lambda>_. f x) xs = update_first P f xs"
  by (induction xs) (auto split: if_splits)

lemma find_Some_holds: "find P xs = Some x \<Longrightarrow> P x \<and> x \<in> set xs"
  by (induction xs) (auto split: if_splits)

lemma find_None_triple:
  "find (matches sid cid d) xs = None \<longleftrightarrow> (sid, cid, d) \<notin> set (map triple xs)"
  by (induction xs) (auto simp add: matches_def triple_def)

section \<open>Facts about one element and about the loop\<close>

lemma query_get_member: "i \<in> ids \<Longrightarrow> query_get env ids i = Inr True"
  by (simp add: query_get_def)

lemma query_get_not_member:
  "i \<notin> ids \<Longrightarrow>
   query_get env ids i =
     (case bind_error env i of None \<Rightarrow> Inr False | Some txt \<Rightarrow> Inl (DriverError txt))"
  by (simp add: query_get_def)

lemma query_get_True: "query_get env ids i = Inr True \<longleftrightarrow> i \<in> ids"
  by (simp add: query_get_def split: option.splits)

lemma process_entry_obj:
  "\<exists>s'. process_entry env db cid d k s (Obj e) = Inr s'"
  by (simp add: process_entry_def try_entry_def except_entry_def query_get_def Let_def
        split: option.splits)

lemma process_entry_nonobj:
  "process_entry env db cid d k s NonObj = Inl AttributeError"
  by (simp add: process_entry_def try_entry_def except_entry_def)

lemma process_entry_table:
  assumes "process_entry env db cid d k s e = Inr s'"
  shows "table s' = (case upsert_of env (students db) k e of None \<Rightarrow> table s
                     | Some (sid, v) \<Rightarrow> upsert cid d sid v (table s))"
proof (cases e)
  case NonObj
  with assms show ?thesis by (simp add: process_entry_nonobj)
next
  case (Obj obj)
  show ?thesis
  proof (cases "e_student_id obj")
    case None
    with assms Obj show ?thesis
      by (auto simp add: process_entry_def try_entry_def except_entry_def upsert_of_def resolved_def)
  next
    case (Some sid)
    show ?thesis
    proof (cases "sid \<in> students db")
      case False
      with assms Obj Some show ?thesis
        by (auto simp add: process_entry_def try_entry_def except_entry_def upsert_of_def
              resolved_def query_get_not_member split: option.splits)
    next
      case True
      show ?thesis
      proof (cases "find (matches sid cid d) (table s)")
        case None
        with assms Obj Some True show ?thesis
          by (auto simp add: process_entry_def try_entry_def upsert_of_def resolved_def
                upsert_def new_row_def entry_vals_def Let_def query_get_member)
      next
        case (Some existing)
        have "update_first (matches sid cid d)
                (\<lambda>_. overwrite (entry_vals env k obj) existing) (table s) =
              update_first (matches sid cid d) (overwrite (entry_vals env k obj)) (table s)"
          by (rule update_first_const[OF Some])
        with assms Obj \<open>e_student_id obj = Some sid\<close> True Some show ?thesis
          by (auto simp add: process_entry_def try_entry_def upsert_of_def resolved_def
                upsert_def overwrite_def entry_vals_def Let_def query_get_member)
      qed
    qed
  qed
qed

lemma process_entry_lists:
  assumes "process_entry env db cid d k s e = Inr s'"
  shows "errors s' = errors s @ entry_errors env db e \<and>
         length (created_records s') = length (created_records s) + (if resolvable db e then 1 else 0) \<and>
         map d_student_id (created_records s') =
           map d_student_id (created_records s) @ (case resolved (students db) e of None \<Rightarrow> [] | Some sid \<Rightarrow> [sid])"
proof (cases e)
  case NonObj
  with assms show ?thesis by (simp add: process_entry_nonobj)
next
  case (Obj obj)
  with assms show ?thesis
    by (auto simp add: process_entry_def try_entry_def except_entry_def entry_errors_def
          resolvable_def resolved_def Let_def to_dict_def new_attendance_def matches_def
          query_get_def
          dest: find_Some_holds split: option.splits if_splits)
qed

text \<open>The loop completes exactly when every element is an object; otherwise the
  \<^verbatim>\<open>AttributeError\<close> of the first other element leaves it.\<close>

lemma bulk_loop_total:
  "NonObj \<notin> set entries \<Longrightarrow> \<exists>s'. bulk_loop env db cid d k s entries = Inr s'"
proof (induction entries arbitrary: k s)
  case Nil
  show ?case by simp
next
  case (Cons e es)
  then obtain obj where e: "e = Obj obj" by (cases e) auto
  obtain s1 where s1: "process_entry env db cid d k s (Obj obj) = Inr s1"
    using process_entry_obj by blast
  from Cons have "NonObj \<notin> set es" by simp
  from Cons.IH[OF this] show ?case by (simp add: e s1)
qed

lemma bulk_loop_abort:
  "NonObj \<in> set entries \<Longrightarrow> bulk_loop env db cid d k s entries = Inl AttributeError"
proof (induction entries arbitrary: k s)
  case Nil
  then show ?case by simp
next
  case (Cons e es)
  show ?case
  proof (cases e)
    case NonObj
    then show ?thesis by (simp add: process_entry_nonobj)
  next
    case (Obj obj)
    obtain s1 where s1: "process_entry env db cid d k s (Obj obj) = Inr s1"
      using process_entry_obj by blast
    from Cons.prems Obj have "NonObj \<in> set es" by simp
    from Cons.IH[OF this] show ?thesis by (simp add: Obj s1)
  qed
qed

lemma bulk_loop_table:
  "bulk_loop env db cid d k s es = Inr s' \<Longrightarrow> table s' = upsert_all env (students db) cid d k (table s) es"
proof (induction es arbitrary: k s)
  case Nil
  then show ?case by simp
next
  case (Cons e es)
  from Cons.prems obtain s1 where s1: "process_entry env db cid d k s e = Inr s1"
    and rest: "bulk_loop env db cid d (Suc k) s1 es = Inr s'"
    by (auto split: sum.splits)
  from Cons.IH[OF rest] process_entry_table[OF s1] show ?case by simp
qed

lemma bulk_loop_lists:
  "bulk_loop env db cid d k s es = Inr s' \<Longrightarrow>
     errors s' = errors s @ concat (map (entry_errors env db) es) \<and>
     length (created_records s') = length (created_records s) + length (filter (resolvable db) es) \<and>
     map d_student_id (created_records s') =
       map d_student_id (created_records s) @ List.map_filter (resolved (students db)) es"
proof (induction es arbitrary: k s)
  case Nil
  then show ?case by simp
next
  case (Cons e es)
  from Cons.prems obtain s1 where s1: "process_entry env db cid d k s e = Inr s1"
    and rest: "bulk_loop env db cid d (Suc k) s1 es = Inr s'"
    by (auto split: sum.splits)
  from Cons.IH[OF rest] process_entry_lists[OF s1] show ?case
    by (auto split: option.splits)
qed

lemma entry_errors_length:
  "e \<noteq> NonObj \<Longrightarrow> length (entry_errors env db e) = (if resolvable db e then 0 else 1)"
  by (cases e) (auto simp add: entry_errors_def resolvable_def resolved_def split: option.splits)

lemma errors_length:
  "NonObj \<notin> set es \<Longrightarrow>
   length (concat (map (entry_errors env db) es)) = length (filter (\<lambda>e. \<not> resolvable db e) es)"
proof (induction es)
  case Nil
  show ?case by simp
next
  case (Cons e es)
  then have "e \<noteq> NonObj" and "NonObj \<notin> set es" by auto
  with Cons.IH entry_errors_length[of e env db] show ?case by simp
qed


text \<open>What a success response tells about the run, and the table a run leaves.\<close>

lemma bulk_success:
  assumes "create_bulk_attendance env db data = (db1, Bulk m recs errs, code)"
  obtains cid ds es d s where
    "b_class_id data = Some cid" "b_date data = Some (Str ds)" "b_attendances data = Some es"
    "strptime env ds = Some d" "cid \<in> classes db"
    "bulk_loop env db cid d 0 \<lparr>table = attendances db, created_records = [], errors = []\<rparr> es = Inr s"
    "commit_ok env" "db1 = db\<lparr>attendances := table s\<rparr>"
    "recs = created_records s" "errs = errors s" "code = 201"
    "m = ''Processed '' @ str_nat (length (created_records s)) @ '' attendance records''"
  using assms
  by (auto simp add: create_bulk_attendance_def query_get_True
        split: option.splits if_splits sum.splits text_value.splits bool.splits)


text \<open>
  The preconditions: with any of them failing the database is as it was and the outcome
  does not depend on the elements; the answer is 400 for a missing field and for a date
  string that does not parse, and 404 for a class id that no class has and the driver
  can pass.
\<close>

lemma bulk_precondition_outcomes:
  assumes "b_class_id data = None \<or> b_date data = None \<or> b_attendances data = None \<or>
           b_date data = Some NotStr \<or>
           (\<exists>ds. b_date data = Some (Str ds) \<and> strptime env ds = None) \<or>
           (\<exists>cid. b_class_id data = Some cid \<and> cid \<notin> classes db)"
  shows "fst (create_bulk_attendance env db data) = db"
    and "create_bulk_attendance env db
           (data\<lparr>b_attendances := map_option (\<lambda>_. other) (b_attendances data)\<rparr>) =
         create_bulk_attendance env db data"
    and "b_class_id data = None \<or> b_date data = None \<or> b_attendances data = None \<or>
         (\<exists>ds. b_date data = Some (Str ds) \<and> strptime env ds = None) \<Longrightarrow>
         \<exists>msg. create_bulk_attendance env db data = (db, Error msg, 400)"
    and "b_class_id data = Some cid \<Longrightarrow> cid \<notin> classes db \<Longrightarrow> bind_error env cid = None \<Longrightarrow>
         b_date data = Some (Str ds) \<Longrightarrow> strptime env ds = Some d \<Longrightarrow>
         b_attendances data = Some es \<Longrightarrow>
         create_bulk_attendance env db data = (db, Error ''Class not found'', 404)"
  using assms
  by (auto simp add: create_bulk_attendance_def query_get_def
        split: option.splits text_value.splits)

section \<open>The closed form of the loop\<close>

lemma key_overwrite [simp]: "key (overwrite v r) = key r"
  by (cases v) (simp add: overwrite_def key_def)

lemma triple_overwrite [simp]: "triple (overwrite v r) = triple r"
  by (cases v) (simp add: overwrite_def triple_def)

lemma overwrite_fields [simp]:
  "att_id (overwrite v r) = att_id r" "student_id (overwrite v r) = student_id r"
  "class_id (overwrite v r) = class_id r" "date (overwrite v r) = date r"
  by (cases v; simp add: overwrite_def)+

lemma overwrite_overwrite [simp]: "overwrite v (overwrite w r) = overwrite v r"
  by (cases v; cases w) (simp add: overwrite_def)

lemma overwrite_new_row [simp]: "overwrite v (new_row rows sid cid d w) = new_row rows sid cid d v"
  by (cases v; cases w) (simp add: overwrite_def new_row_def new_attendance_def)

lemma new_row_fields [simp]:
  "student_id (new_row rows sid cid d v) = sid" "class_id (new_row rows sid cid d v) = cid"
  "date (new_row rows sid cid d v) = d" "att_id (new_row rows sid cid d v) = fresh_id rows"
  by (cases v; simp add: new_row_def new_attendance_def)+

lemma triple_new_row [simp]: "triple (new_row rows sid cid d v) = (sid, cid, d)"
  by (simp add: triple_def)

lemma overwrite_opt_fields [simp]:
  "key (case ov of None \<Rightarrow> r | Some v \<Rightarrow> overwrite v r) = key r"
  "triple (case ov of None \<Rightarrow> r | Some v \<Rightarrow> overwrite v r) = triple r"
  "att_id (case ov of None \<Rightarrow> r | Some v \<Rightarrow> overwrite v r) = att_id r"
  by (cases ov; simp)+

lemma map_key_overwrite_firsts [simp]: "map key (overwrite_firsts cid d f X) = map key X"
  by (induction X arbitrary: f) simp_all

lemma map_triple_overwrite_firsts [simp]: "map triple (overwrite_firsts cid d f X) = map triple X"
  by (induction X arbitrary: f) simp_all

lemma map_att_id_overwrite_firsts [simp]: "map att_id (overwrite_firsts cid d f X) = map att_id X"
  by (induction X arbitrary: f) simp_all

lemma fresh_id_overwrite_firsts [simp]: "fresh_id (overwrite_firsts cid d f X) = fresh_id X"
  by (simp add: fresh_id_def)

lemma new_row_overwrite_firsts [simp]:
  "new_row (overwrite_firsts cid d f X) sid cid' d' v = new_row X sid cid' d' v"
  by (cases v) (simp add: new_row_def new_attendance_def)

lemma overwrite_firsts_empty: "overwrite_firsts cid d Map.empty X = X"
  by (induction X) simp_all

lemma update_first_overwrite_firsts:
  "(sid, cid, d) \<in> set (map triple X) \<Longrightarrow>
   update_first (matches sid cid d) (overwrite v) (overwrite_firsts cid d f X) =
   overwrite_firsts cid d (f(sid \<mapsto> v)) X"
proof (induction X arbitrary: f)
  case Nil
  then show ?case by simp
next
  case (Cons x X)
  show ?case
  proof (cases "matches sid cid d x")
    case True
    then have x: "student_id x = sid" "class_id x = cid" "date x = d"
      by (simp_all add: matches_def)
    have m: "matches sid cid d (case f sid of None \<Rightarrow> x | Some w \<Rightarrow> overwrite w x)"
      by (cases "f sid") (simp_all add: matches_def x)
    have ow: "overwrite v (case f sid of None \<Rightarrow> x | Some w \<Rightarrow> overwrite w x) = overwrite v x"
      by (cases "f sid") simp_all
    have "update_first (matches sid cid d) (overwrite v) (overwrite_firsts cid d f (x # X)) =
          overwrite v x # overwrite_firsts cid d (f(sid := None)) X"
      using m ow by (simp add: x)
    also have "\<dots> = overwrite_firsts cid d (f(sid \<mapsto> v)) (x # X)"
      by (simp add: x)
    finally show ?thesis .
  next
    case False
    with Cons.prems have in_tl: "(sid, cid, d) \<in> set (map triple X)"
      by (auto simp add: matches_def triple_def)
    show ?thesis
    proof (cases "class_id x = cid \<and> date x = d")
      case rel: True
      with False have ne: "student_id x \<noteq> sid" by (auto simp add: matches_def)
      then have tw: "(f(sid \<mapsto> v))(student_id x := None) = (f(student_id x := None))(sid \<mapsto> v)"
        by (simp add: fun_upd_twist)
      have nm: "\<not> matches sid cid d (case f (student_id x) of None \<Rightarrow> x | Some w \<Rightarrow> overwrite w x)"
        using ne by (cases "f (student_id x)") (simp_all add: matches_def)
      have "update_first (matches sid cid d) (overwrite v) (overwrite_firsts cid d f (x # X)) =
            (case f (student_id x) of None \<Rightarrow> x | Some w \<Rightarrow> overwrite w x) #
            update_first (matches sid cid d) (overwrite v)
              (overwrite_firsts cid d (f(student_id x := None)) X)"
        using rel nm by simp
      also have "\<dots> = (case f (student_id x) of None \<Rightarrow> x | Some w \<Rightarrow> overwrite w x) #
            overwrite_firsts cid d ((f(student_id x := None))(sid \<mapsto> v)) X"
        by (simp only: Cons.IH[OF in_tl])
      also have "\<dots> = overwrite_firsts cid d (f(sid \<mapsto> v)) (x # X)"
        using rel ne by (simp add: tw)
      finally show ?thesis .
    next
      case nrel: False
      have "update_first (matches sid cid d) (overwrite v) (overwrite_firsts cid d f (x # X)) =
            x # update_first (matches sid cid d) (overwrite v) (overwrite_firsts cid d f X)"
        using False by (simp add: nrel)
      also have "\<dots> = x # overwrite_firsts cid d (f(sid \<mapsto> v)) X"
        by (simp only: Cons.IH[OF in_tl])
      also have "\<dots> = overwrite_firsts cid d (f(sid \<mapsto> v)) (x # X)"
        by (simp add: nrel)
      finally show ?thesis .
    qed
  qed
qed

lemma overwrite_firsts_snoc_new:
  "(sid, cid, d) \<notin> set (map triple X) \<Longrightarrow>
   overwrite_firsts cid d (f(sid \<mapsto> v)) (X @ [new_row Y sid cid d w]) =
   overwrite_firsts cid d f X @ [new_row Y sid cid d v]"
proof (induction X arbitrary: f)
  case Nil
  show ?case by simp
next
  case (Cons x X)
  from Cons.prems have nin: "(sid, cid, d) \<notin> set (map triple X)" and nx: "triple x \<noteq> (sid, cid, d)"
    by auto
  show ?case
  proof (cases "class_id x = cid \<and> date x = d")
    case rel: True
    with nx have ne: "student_id x \<noteq> sid" by (auto simp add: triple_def)
    then have tw: "(f(sid \<mapsto> v))(student_id x := None) = (f(student_id x := None))(sid \<mapsto> v)"
      by (simp add: fun_upd_twist)
    have "overwrite_firsts cid d (f(sid \<mapsto> v)) ((x # X) @ [new_row Y sid cid d w]) =
          (case f (student_id x) of None \<Rightarrow> x | Some w \<Rightarrow> overwrite w x) #
          overwrite_firsts cid d ((f(student_id x := None))(sid \<mapsto> v)) (X @ [new_row Y sid cid d w])"
      using rel ne by (simp add: tw)
    also have "\<dots> = (case f (student_id x) of None \<Rightarrow> x | Some w \<Rightarrow> overwrite w x) #
          (overwrite_firsts cid d (f(student_id x := None)) X @ [new_row Y sid cid d v])"
      by (simp only: Cons.IH[OF nin])
    also have "\<dots> = overwrite_firsts cid d f (x # X) @ [new_row Y sid cid d v]"
      using rel by simp
    finally show ?thesis .
  next
    case False
    have "overwrite_firsts cid d (f(sid \<mapsto> v)) ((x # X) @ [new_row Y sid cid d w]) =
          x # overwrite_firsts cid d (f(sid \<mapsto> v)) (X @ [new_row Y sid cid d w])"
      by (simp add: False)
    also have "\<dots> = x # (overwrite_firsts cid d f X @ [new_row Y sid cid d v])"
      by (simp only: Cons.IH[OF nin])
    also have "\<dots> = overwrite_firsts cid d f (x # X) @ [new_row Y sid cid d v]"
      by (simp add: False)
    finally show ?thesis .
  qed
qed

lemma upsert_overwrite_firsts:
  "upsert cid d sid v (overwrite_firsts cid d f X) =
   overwrite_firsts cid d (f(sid \<mapsto> v))
     (case find (matches sid cid d) X of Some existing \<Rightarrow> X | None \<Rightarrow> X @ [new_row X sid cid d v])"
proof (cases "find (matches sid cid d) X")
  case None
  then have nin: "(sid, cid, d) \<notin> set (map triple X)" by (simp add: find_None_triple)
  then have "find (matches sid cid d) (overwrite_firsts cid d f X) = None"
    by (simp add: find_None_triple)
  with None nin show ?thesis
    by (simp add: upsert_def overwrite_firsts_snoc_new)
next
  case (Some existing)
  then have inn: "(sid, cid, d) \<in> set (map triple X)"
    using find_None_triple[of sid cid d X] by auto
  then have "find (matches sid cid d) (overwrite_firsts cid d f X) \<noteq> None"
    by (simp add: find_None_triple)
  then obtain e' where "find (matches sid cid d) (overwrite_firsts cid d f X) = Some e'" by auto
  with Some inn show ?thesis
    by (simp add: upsert_def update_first_overwrite_firsts)
qed

lemma upsert_all_closed_form:
  "upsert_all env S cid d k (overwrite_firsts cid d f X) es =
   overwrite_firsts cid d (last_vals env S k f es) (insert_missing env S cid d k X es)"
proof (induction es arbitrary: k f X)
  case Nil
  show ?case by simp
next
  case (Cons e es)
  show ?case
  proof (cases "upsert_of env S k e")
    case None
    then show ?thesis by (simp add: Cons.IH)
  next
    case (Some sv)
    obtain sid v where sv: "sv = (sid, v)" by (cases sv)
    have "upsert_all env S cid d k (overwrite_firsts cid d f X) (e # es) =
          upsert_all env S cid d (Suc k) (upsert cid d sid v (overwrite_firsts cid d f X)) es"
      by (simp add: Some sv)
    also have "\<dots> = upsert_all env S cid d (Suc k)
        (overwrite_firsts cid d (f(sid \<mapsto> v))
          (case find (matches sid cid d) X of Some existing \<Rightarrow> X
           | None \<Rightarrow> X @ [new_row X sid cid d v])) es"
      by (simp only: upsert_overwrite_firsts)
    also have "\<dots> = overwrite_firsts cid d (last_vals env S (Suc k) (f(sid \<mapsto> v)) es)
        (insert_missing env S cid d (Suc k)
          (case find (matches sid cid d) X of Some existing \<Rightarrow> X
           | None \<Rightarrow> X @ [new_row X sid cid d v]) es)"
      by (rule Cons.IH)
    also have "\<dots> = overwrite_firsts cid d (last_vals env S k f (e # es))
        (insert_missing env S cid d k X (e # es))"
      by (simp add: Some sv)
    finally show ?thesis .
  qed
qed

section \<open>Uniqueness of the triples\<close>

lemma unique_triples_upsert:
  "unique_triples rows \<Longrightarrow> unique_triples (upsert cid d sid v rows)"
proof (cases "find (matches sid cid d) rows")
  case None
  assume u: "unique_triples rows"
  from None have "(sid, cid, d) \<notin> set (map triple rows)" by (simp add: find_None_triple)
  with u show ?thesis
    by (simp add: upsert_def None unique_triples_def)
next
  case (Some existing)
  assume "unique_triples rows"
  moreover have "map triple (update_first (matches sid cid d) (overwrite v) rows) = map triple rows"
    by (rule map_update_first) simp
  ultimately show ?thesis using Some by (simp add: upsert_def unique_triples_def)
qed

lemma unique_triples_upsert_all:
  "unique_triples rows \<Longrightarrow> unique_triples (upsert_all env S cid d k rows es)"
proof (induction es arbitrary: k rows)
  case Nil
  then show ?case by simp
next
  case (Cons e es)
  show ?case
  proof (cases "upsert_of env S k e")
    case None
    with Cons show ?thesis by simp
  next
    case (Some sv)
    obtain sid v where sv: "sv = (sid, v)" by (cases sv)
    from Cons.prems have "unique_triples (upsert cid d sid v rows)"
      by (rule unique_triples_upsert)
    from Cons.IH[OF this] show ?thesis by (simp add: Some sv)
  qed
qed

text \<open>No triple that has a row gains another one, whatever the table was.\<close>

lemma upsert_count:
  "length (filter (\<lambda>r. triple r = t) (upsert cid d sid v rows)) \<le>
   max 1 (length (filter (\<lambda>r. triple r = t) rows))"
proof (cases "find (matches sid cid d) rows")
  case None
  then have "\<forall>r\<in>set rows. triple r \<noteq> (sid, cid, d)"
    by (auto simp add: find_None_iff matches_def triple_def)
  then have "t = (sid, cid, d) \<Longrightarrow> filter (\<lambda>r. triple r = t) rows = []"
    by (simp add: filter_empty_conv)
  then show ?thesis by (auto simp add: upsert_def None)
next
  case (Some existing)
  have "map triple (update_first (matches sid cid d) (overwrite v) rows) = map triple rows"
    by (rule map_update_first) simp
  then have "filter (\<lambda>x. x = t) (map triple (update_first (matches sid cid d) (overwrite v) rows)) =
             filter (\<lambda>x. x = t) (map triple rows)"
    by simp
  then have "length (filter (\<lambda>r. triple r = t) (update_first (matches sid cid d) (overwrite v) rows)) =
             length (filter (\<lambda>r. triple r = t) rows)"
    by (simp add: filter_map comp_def del: length_update_first) (metis length_map)
  then show ?thesis by (simp add: upsert_def Some)
qed

lemma upsert_all_count:
  "length (filter (\<lambda>r. triple r = t) (upsert_all env S cid d k rows es)) \<le>
   max 1 (length (filter (\<lambda>r. triple r = t) rows))"
proof (induction es arbitrary: k rows)
  case Nil
  show ?case by simp
next
  case (Cons e es)
  show ?case
  proof (cases "upsert_of env S k e")
    case None
    with Cons.IH[of "Suc k" rows] show ?thesis by simp
  next
    case (Some sv)
    obtain sid v where sv: "sv = (sid, v)" by (cases sv)
    have "length (filter (\<lambda>r. triple r = t) (upsert_all env S cid d (Suc k) (upsert cid d sid v rows) es))
          \<le> max 1 (length (filter (\<lambda>r. triple r = t) (upsert cid d sid v rows)))"
      by (rule Cons.IH)
    also have "\<dots> \<le> max 1 (length (filter (\<lambda>r. triple r = t) rows))"
      using upsert_count[of t cid d sid v rows] by simp
    finally show ?thesis by (simp add: Some sv)
  qed
qed

section \<open>Rows inserted and values written\<close>

lemma insert_missing_extends:
  "\<exists>ys. insert_missing env S cid d k X es = X @ ys"
proof (induction es arbitrary: k X)
  case Nil
  show ?case by simp
next
  case (Cons e es)
  show ?case
  proof (cases "upsert_of env S k e")
    case None
    with Cons.IH[of "Suc k" X] show ?thesis by simp
  next
    case (Some sv)
    obtain sid v where sv: "sv = (sid, v)" by (cases sv)
    show ?thesis
    proof (cases "find (matches sid cid d) X")
      case None
      from Cons.IH[of "Suc k" "X @ [new_row X sid cid d v]"] show ?thesis
        by (auto simp add: Some sv None)
    next
      case (Some existing)
      with Cons.IH[of "Suc k" X] show ?thesis
        by (simp add: \<open>upsert_of env S k e = Some sv\<close> sv)
    qed
  qed
qed

lemma upsert_of_resolved:
  "upsert_of env S k e = Some (sid, v) \<Longrightarrow> resolved S e = Some sid"
  by (auto simp add: upsert_of_def split: entry.splits option.splits)






lemma last_vals_untouched:
  "(\<And>e. e \<in> set es \<Longrightarrow> resolved S e \<noteq> Some sid) \<Longrightarrow> last_vals env S k f es sid = f sid"
proof (induction es arbitrary: k f)
  case Nil
  show ?case by simp
next
  case (Cons e es)
  have rest: "\<And>g. last_vals env S (Suc k) g es sid = g sid"
    by (rule Cons.IH) (simp add: Cons.prems)
  show ?case
  proof (cases "upsert_of env S k e")
    case None
    then show ?thesis by (simp add: rest)
  next
    case (Some sv)
    obtain sid' v where sv: "sv = (sid', v)" by (cases sv)
    from Some sv have "resolved S e = Some sid'" by (simp add: upsert_of_resolved)
    with Cons.prems[of e] have "sid' \<noteq> sid" by auto
    then show ?thesis by (simp add: Some sv rest)
  qed
qed

lemma last_vals_last:
  "j < length es \<Longrightarrow> upsert_of env S (k + j) (es ! j) = Some (sid, v) \<Longrightarrow>
   (\<And>j'. j < j' \<Longrightarrow> j' < length es \<Longrightarrow> resolved S (es ! j') \<noteq> Some sid) \<Longrightarrow>
   last_vals env S k f es sid = Some v"
proof (induction es arbitrary: k f j)
  case Nil
  then show ?case by simp
next
  case (Cons e es)
  show ?case
  proof (cases j)
    case 0
    with Cons.prems(2) have here: "upsert_of env S k e = Some (sid, v)" by simp
    have "\<And>e'. e' \<in> set es \<Longrightarrow> resolved S e' \<noteq> Some sid"
    proof -
      fix e' assume "e' \<in> set es"
      then obtain n where n: "n < length es" "es ! n = e'" by (auto simp add: in_set_conv_nth)
      from Cons.prems(3)[of "Suc n"] 0 n show "resolved S e' \<noteq> Some sid" by simp
    qed
    then have "last_vals env S (Suc k) (f(sid \<mapsto> v)) es sid = (f(sid \<mapsto> v)) sid"
      by (rule last_vals_untouched)
    then show ?thesis by (simp add: here)
  next
    case (Suc j0)
    with Cons.prems have j0: "j0 < length es"
      and at: "upsert_of env S (Suc k + j0) (es ! j0) = Some (sid, v)"
      by simp_all
    have later: "\<And>j'. j0 < j' \<Longrightarrow> j' < length es \<Longrightarrow> resolved S (es ! j') \<noteq> Some sid"
      using Cons.prems(3)[of "Suc j'" for j'] Suc by simp
    have "\<And>g. last_vals env S (Suc k) g es sid = Some v"
      using j0 at later by (rule Cons.IH)
    then show ?thesis by (cases "upsert_of env S k e") (auto)
  qed
qed

lemma overwrite_firsts_unique:
  "unique_triples X \<Longrightarrow>
   overwrite_firsts cid d f X =
   map (\<lambda>r. if class_id r = cid \<and> date r = d
             then (case f (student_id r) of None \<Rightarrow> r | Some v \<Rightarrow> overwrite v r) else r) X"
proof (induction X arbitrary: f)
  case Nil
  show ?case by simp
next
  case (Cons x X)
  from Cons.prems have ux: "unique_triples X" and nx: "triple x \<notin> set (map triple X)"
    by (simp_all add: unique_triples_def)
  show ?case
  proof (cases "class_id x = cid \<and> date x = d")
    case True
    have "overwrite_firsts cid d (f(student_id x := None)) X =
          map (\<lambda>r. if class_id r = cid \<and> date r = d
                    then (case (f(student_id x := None)) (student_id r) of None \<Rightarrow> r
                          | Some v \<Rightarrow> overwrite v r) else r) X"
      by (rule Cons.IH[OF ux])
    also have "\<dots> = map (\<lambda>r. if class_id r = cid \<and> date r = d
                    then (case f (student_id r) of None \<Rightarrow> r | Some v \<Rightarrow> overwrite v r) else r) X"
    proof (rule map_cong[OF refl])
      fix r assume r: "r \<in> set X"
      show "(if class_id r = cid \<and> date r = d
             then (case (f(student_id x := None)) (student_id r) of None \<Rightarrow> r
                   | Some v \<Rightarrow> overwrite v r) else r) =
            (if class_id r = cid \<and> date r = d
             then (case f (student_id r) of None \<Rightarrow> r | Some v \<Rightarrow> overwrite v r) else r)"
      proof (cases "class_id r = cid \<and> date r = d")
        case rel: True
        from r have "triple r \<in> set (map triple X)" by simp
        with nx have "triple r \<noteq> triple x" by metis
        with rel True have "student_id r \<noteq> student_id x" by (auto simp add: triple_def)
        then show ?thesis by simp
      next
        case nrel: False
        show ?thesis by (simp only: nrel if_False)
      qed
    qed
    finally show ?thesis by (simp add: True)
  next
    case False
    have "overwrite_firsts cid d f X =
          map (\<lambda>r. if class_id r = cid \<and> date r = d
                    then (case f (student_id r) of None \<Rightarrow> r | Some v \<Rightarrow> overwrite v r) else r) X"
      by (rule Cons.IH[OF ux])
    then show ?thesis by (simp add: False)
  qed
qed

lemma upsert_all_last_wins:
  assumes uniq: "unique_triples rows"
    and k: "k < length es" and at: "upsert_of env S k (es ! k) = Some (sid, v)"
    and later: "\<And>j. k < j \<Longrightarrow> j < length es \<Longrightarrow> resolved S (es ! j) \<noteq> Some sid"
    and i: "i < length rows" and m: "matches sid cid d (rows ! i)"
  shows "upsert_all env S cid d 0 rows es ! i = overwrite v (rows ! i)"
proof -
  let ?F = "last_vals env S 0 Map.empty es" and ?X = "insert_missing env S cid d 0 rows es"
  have closed: "upsert_all env S cid d 0 rows es = overwrite_firsts cid d ?F ?X"
    using upsert_all_closed_form[of env S cid d 0 Map.empty rows es]
    by (simp add: overwrite_firsts_empty)
  have "unique_triples (upsert_all env S cid d 0 rows es)"
    using uniq by (rule unique_triples_upsert_all)
  then have ux: "unique_triples ?X"
    by (simp add: closed unique_triples_def)
  obtain ys where ys: "?X = rows @ ys" using insert_missing_extends by blast
  with i have xi: "?X ! i = rows ! i" and ix: "i < length ?X" by (simp_all add: nth_append)
  have F: "?F sid = Some v"
    using k at later by (intro last_vals_last[where j = k]) simp_all
  from m have r: "student_id (rows ! i) = sid" "class_id (rows ! i) = cid" "date (rows ! i) = d"
    by (simp_all add: matches_def)
  have "overwrite_firsts cid d ?F ?X ! i =
        (\<lambda>r. if class_id r = cid \<and> date r = d
              then (case ?F (student_id r) of None \<Rightarrow> r | Some v \<Rightarrow> overwrite v r) else r) (?X ! i)"
    by (simp only: overwrite_firsts_unique[OF ux] nth_map[OF ix])
  also have "\<dots> = overwrite v (rows ! i)"
    by (simp add: xi r F)
  finally show ?thesis by (simp only: closed)
qed

lemma upsert_all_keys:
  "take (length rows) (map key (upsert_all env S cid d k rows es)) = map key rows"
proof -
  let ?F = "last_vals env S k Map.empty es" and ?X = "insert_missing env S cid d k rows es"
  have closed: "upsert_all env S cid d k rows es = overwrite_firsts cid d ?F ?X"
    using upsert_all_closed_form[of env S cid d k Map.empty rows es]
    by (simp add: overwrite_firsts_empty)
  obtain ys where ys: "?X = rows @ ys" using insert_missing_extends by blast
  show ?thesis by (simp add: closed ys)
qed

section \<open>Submitting a batch twice\<close>











section \<open>The bulk upsert\<close>

text \<open>
  C1. In a table with at most one row per triple (student_id, class_id, date), a bulk upsert
  that passes its preconditions and commits leaves at most one row per triple. Every row
  that was there keeps its position, its id and its triple, and no triple has more rows
  than before unless it had none and now has one, so no second row is created for a
  triple that has one; and where a student's triple already has a row, that row
  carries, after the commit, the present and notes of the student's last element of the
  batch, the acting user as recorded_by and the time of that element as recorded_at.
\<close>

theorem bulk_keeps_triples_unique:
  assumes uniq: "unique_triples (attendances db)"
    and ok: "create_bulk_attendance env db data = (db', Bulk m recs errs, 201)"
    and req: "b_class_id data = Some cid" "b_date data = Some (Str ds)" "strptime env ds = Some d"
      "b_attendances data = Some es"
  shows "unique_triples (attendances db') \<and>
         take (length (attendances db)) (map key (attendances db')) = map key (attendances db) \<and>
         (\<forall>t. length (filter (\<lambda>r. triple r = t) (attendances db')) \<le>
              max 1 (length (filter (\<lambda>r. triple r = t) (attendances db)))) \<and>
         (\<forall>k i obj sid.
            k < length es \<and> es ! k = Obj obj \<and> e_student_id obj = Some sid \<and>
            sid \<in> students db \<and>
            (\<forall>j. k < j \<and> j < length es \<longrightarrow> resolved (students db) (es ! j) \<noteq> Some sid) \<and>
            i < length (attendances db) \<and> matches sid cid d (attendances db ! i) \<longrightarrow>
            attendances db' ! i = overwrite (entry_vals env k obj) (attendances db ! i))"
proof -
  from ok obtain cid' ds' es' d' s where f:
    "b_class_id data = Some cid'" "b_date data = Some (Str ds')" "b_attendances data = Some es'"
    "strptime env ds' = Some d'"
    and loop: "bulk_loop env db cid' d' 0
      \<lparr>table = attendances db, created_records = [], errors = []\<rparr> es' = Inr s"
    and db': "db' = db\<lparr>attendances := table s\<rparr>"
    by (rule bulk_success)
  from f req have same: "cid' = cid" "es' = es" "d' = d" by simp_all
  have t: "attendances db' = upsert_all env (students db) cid d 0 (attendances db) es"
    using bulk_loop_table[OF loop] db' same by simp
  have u: "unique_triples (attendances db')"
    unfolding t using uniq by (rule unique_triples_upsert_all)
  have p: "take (length (attendances db)) (map key (attendances db')) = map key (attendances db)"
    unfolding t by (rule upsert_all_keys)
  have w: "attendances db' ! i = overwrite (entry_vals env k obj) (attendances db ! i)"
    if "k < length es" "es ! k = Obj obj" "e_student_id obj = Some sid" "sid \<in> students db"
      "\<forall>j. k < j \<and> j < length es \<longrightarrow> resolved (students db) (es ! j) \<noteq> Some sid"
      "i < length (attendances db)" "matches sid cid d (attendances db ! i)"
    for k i obj sid
    unfolding t
  proof (rule upsert_all_last_wins[OF uniq that(1) _ _ that(6) that(7)])
    show "upsert_of env (students db) k (es ! k) = Some (sid, entry_vals env k obj)"
      using that(2,3,4) by (simp add: upsert_of_def resolved_def)
    show "\<And>j. k < j \<Longrightarrow> j < length es \<Longrightarrow> resolved (students db) (es ! j) \<noteq> Some sid"
      using that(5) by blast
  qed
  have c: "\<forall>t. length (filter (\<lambda>r. triple r = t) (attendances db')) \<le>
                max 1 (length (filter (\<lambda>r. triple r = t) (attendances db)))"
    unfolding t by (rule allI) (rule upsert_all_count)
  from u p c w show ?thesis by blast
qed

theorem bulk_keeps_triples_unique_witness:
  "unique_triples (attendances ex_db1) \<and>
   unique_triples (attendances (fst (create_bulk_attendance ex_other ex_db1
      (ex_batch [ex_entry 1 False, ex_entry 2 True])))) \<and>
   map key (attendances (fst (create_bulk_attendance ex_other ex_db1
      (ex_batch [ex_entry 1 False, ex_entry 2 True])))) =
     [(1, 1, 5, Date 2024 3 1), (2, 2, 5, Date 2024 3 1)] \<and>
   attendances (fst (create_bulk_attendance ex_other ex_db1
      (ex_batch [ex_entry 1 False, ex_entry 2 True]))) ! 0 =
     ex_row\<lparr>present := False, att_notes := None, recorded_by := 8, recorded_at := 200\<rparr>"
proof -
  let ?data = "ex_batch [ex_entry 1 False, ex_entry 2 True]"
  let ?res = "create_bulk_attendance ex_other ex_db1 ?data"
  have u: "unique_triples (attendances ex_db1)" by code_simp
  have ok: "?res = (fst ?res, Bulk ''Processed 2 attendance records''
                      (created_of (snd ?res)) (errors_of (snd ?res)), 201)"
    by code_simp
  have req: "b_class_id ?data = Some 5" "b_date ?data = Some (Str ''2024-03-01'')"
    "strptime ex_other ''2024-03-01'' = Some (Date 2024 3 1)"
    "b_attendances ?data = Some [ex_entry 1 False, ex_entry 2 True]"
    by (simp_all add: ex_batch_def ex_other_def ex_env_def)
  note T = bulk_keeps_triples_unique[OF u ok req]
  from T have c1: "unique_triples (attendances (fst ?res))" by blast
  from T have "attendances (fst ?res) ! 0 =
     overwrite (entry_vals ex_other 0 \<lparr>e_student_id = Some 1, e_present = Some False, e_notes = None\<rparr>)
       (attendances ex_db1 ! 0)"
    by (simp add: ex_entry_def ex_db1_def ex_db_def ex_row_def matches_def resolved_def)
  then have c3: "attendances (fst ?res) ! 0 =
     ex_row\<lparr>present := False, att_notes := None, recorded_by := 8, recorded_at := 200\<rparr>"
    by (simp add: overwrite_def entry_vals_def ex_other_def ex_env_def dict_get_def ex_db1_def ex_db_def)
  have c2: "map key (attendances (fst ?res)) = [(1, 1, 5, Date 2024 3 1), (2, 2, 5, Date 2024 3 1)]"
    by code_simp
  from u c1 c2 c3 show ?thesis by blast
qed




text \<open>
  C3, as amended. When a bulk upsert answers with its result lists, every submitted
  element is in exactly one of them: the records and the errors together are as many as
  the submitted elements, the records are as many as the elements with a resolvable
  student (one record per such element, in order), and every other element, one whose
  student does not exist among them, contributes one message to the errors and nothing
  to the records.
\<close>

theorem bulk_result_counts:
  assumes "create_bulk_attendance env db data = (db', Bulk m recs errs, code)"
    and "b_attendances data = Some es"
  shows "length recs + length errs = length es \<and>
         length recs = length (filter (resolvable db) es) \<and>
         length errs = length (filter (\<lambda>e. \<not> resolvable db e) es) \<and>
         errs = concat (map (entry_errors env db) es) \<and>
         map d_student_id recs = List.map_filter (resolved (students db)) es"
proof -
  from assms(1) obtain cid ds es' d s where f: "b_attendances data = Some es'"
    and loop: "bulk_loop env db cid d 0
      \<lparr>table = attendances db, created_records = [], errors = []\<rparr> es' = Inr s"
    and r: "recs = created_records s" "errs = errors s"
    by (rule bulk_success)
  from f assms(2) have es: "es' = es" by simp
  have objs: "NonObj \<notin> set es"
    using loop bulk_loop_abort[of es env db cid d 0] es by auto
  from bulk_loop_lists[OF loop] r es
  have l: "errs = concat (map (entry_errors env db) es)"
    "length recs = length (filter (resolvable db) es)"
    "map d_student_id recs = List.map_filter (resolved (students db)) es"
    by simp_all
  have "length (filter (resolvable db) es) + length (filter (\<lambda>e. \<not> resolvable db e) es) = length es"
    by (rule sum_length_filter_compl)
  with l errors_length[OF objs, of env db] show ?thesis by simp
qed

theorem bulk_result_counts_witness:
  "create_bulk_attendance ex_env ex_db (ex_batch [ex_entry 1 True, ex_entry 999 False]) =
     (ex_db1, Bulk ''Processed 1 attendance records'' [(to_dict ex_row)\<lparr>d_id := None\<rparr>]
                [''Student 999 not found''], 201) \<and>
   length [(to_dict ex_row)\<lparr>d_id := None\<rparr>] + length [''Student 999 not found''] =
     length [ex_entry 1 True, ex_entry 999 False] \<and>
   length [(to_dict ex_row)\<lparr>d_id := None\<rparr>] =
     length (filter (resolvable ex_db) [ex_entry 1 True, ex_entry 999 False])"
proof -
  have run: "create_bulk_attendance ex_env ex_db (ex_batch [ex_entry 1 True, ex_entry 999 False]) =
     (ex_db1, Bulk ''Processed 1 attendance records'' [(to_dict ex_row)\<lparr>d_id := None\<rparr>]
                [''Student 999 not found''], 201)"
    by code_simp
  have es: "b_attendances (ex_batch [ex_entry 1 True, ex_entry 999 False]) =
            Some [ex_entry 1 True, ex_entry 999 False]"
    by (simp add: ex_batch_def)
  from bulk_result_counts[OF run es] run show ?thesis by blast
qed

theorem bulk_result_counts_counterexample:
  "snd (snd (create_bulk_attendance ex_env ex_db
      (ex_batch [ex_entry 1 True, ex_entry 999 False]))) = 201 \<and>
   length (errors_of (snd (create_bulk_attendance ex_env ex_db
      (ex_batch [ex_entry 1 True, ex_entry 999 False])))) +
   length (created_of (snd (create_bulk_attendance ex_env ex_db
      (ex_batch [ex_entry 1 True, ex_entry 999 False])))) = 2 \<and>
   length (filter (resolvable ex_db) [ex_entry 1 True, ex_entry 999 False]) = 1"
  by code_simp

text \<open>
  C4. A missing \<^verbatim>\<open>class_id\<close>, \<^verbatim>\<open>date\<close> or \<^verbatim>\<open>attendances\<close> answers 400, a date string that
  does not parse answers 400 and a class id that no class has answers 404; with any
  failing precondition the database is as it was and no element is processed (lemma
  \<open>bulk_precondition_outcomes\<close>). Two failing preconditions are not answered that way: a
  date that is not a string passes the handler's \<^verbatim>\<open>except ValueError\<close> as a \<^verbatim>\<open>TypeError\<close>
  and is answered 500 instead of 400, and a class id the driver cannot pass is answered
  500 instead of 404.
\<close>

theorem bulk_non_string_date_answers_500:
  "create_bulk_attendance ex_env ex_db1
     \<lparr>b_class_id = Some 5, b_date = Some NotStr, b_attendances = Some [ex_entry 1 False]\<rparr> =
     (ex_db1, Failure TypeError, 500) \<and>
   create_bulk_attendance ex_env ex_db1
     \<lparr>b_class_id = Some 9223372036854775808, b_date = Some (Str ''2024-03-01''),
      b_attendances = Some [ex_entry 1 False]\<rparr> =
     (ex_db1, Failure (DriverError ''Python int too large to convert to SQLite INTEGER''), 500) \<and>
   create_bulk_attendance ex_env ex_db1 ex_bad_date =
     (ex_db1, Error ''Invalid date format. Use YYYY-MM-DD'', 400) \<and>
   create_bulk_attendance ex_env ex_db1
     \<lparr>b_class_id = Some 6, b_date = Some (Str ''2024-03-01''),
      b_attendances = Some [ex_entry 1 False]\<rparr> =
     (ex_db1, Error ''Class not found'', 404)"
  by code_simp

text \<open>
  C5. When the loop of a bulk upsert has completed and the final commit fails, the
  database is as it was before the request, updates to rows that existed included; the
  records and errors collected so far are not returned, and the operation answers 500
  with the storage failure.
\<close>

theorem bulk_commit_failure_rolls_back:
  assumes "b_class_id data = Some cid" and "b_date data = Some (Str ds)"
    and "b_attendances data = Some es" and "strptime env ds = Some d"
    and "cid \<in> classes db" and "NonObj \<notin> set es" and "\<not> commit_ok env"
  shows "create_bulk_attendance env db data = (db, Failure CommitError, 500)"
proof -
  obtain s where "bulk_loop env db cid d 0
      \<lparr>table = attendances db, created_records = [], errors = []\<rparr> es = Inr s"
    using bulk_loop_total[OF assms(6)] by blast
  with assms show ?thesis by (simp add: create_bulk_attendance_def query_get_member)
qed

theorem bulk_commit_failure_rolls_back_witness:
  "table (projr (bulk_loop ex_failing ex_db1 5 (Date 2024 3 1) 0
      \<lparr>table = attendances ex_db1, created_records = [], errors = []\<rparr> [ex_entry 1 False])) =
     [ex_row\<lparr>present := False\<rparr>] \<and>
   create_bulk_attendance ex_failing ex_db1 (ex_batch [ex_entry 1 False]) =
     (ex_db1, Failure CommitError, 500)"
proof -
  have staged: "table (projr (bulk_loop ex_failing ex_db1 5 (Date 2024 3 1) 0
      \<lparr>table = attendances ex_db1, created_records = [], errors = []\<rparr> [ex_entry 1 False])) =
     [ex_row\<lparr>present := False\<rparr>]"
    by code_simp
  have h: "b_class_id (ex_batch [ex_entry 1 False]) = Some 5"
    "b_date (ex_batch [ex_entry 1 False]) = Some (Str ''2024-03-01'')"
    "b_attendances (ex_batch [ex_entry 1 False]) = Some [ex_entry 1 False]"
    "strptime ex_failing ''2024-03-01'' = Some (Date 2024 3 1)"
    "5 \<in> classes ex_db1" "NonObj \<notin> set [ex_entry 1 False]" "\<not> commit_ok ex_failing"
    by (simp_all add: ex_batch_def ex_failing_def ex_env_def ex_db1_def ex_db_def ex_entry_def)
  from bulk_commit_failure_rolls_back[OF h] staged show ?thesis by blast
qed

text \<open>
  C6. An element whose student does not exist, and an object without \<^verbatim>\<open>student_id\<close>, are
  recorded as per-entry errors and the loop goes on. An element that is not an object is
  different: the handler of the inner \<^verbatim>\<open>try\<close> fails on it, the batch is aborted and rolled
  back, and the operation answers 500; the record staged for student 1 before it is lost.
\<close>

theorem bulk_non_object_entry_aborts:
  "create_bulk_attendance ex_env ex_db
     (ex_batch [ex_entry 1 True, Obj \<lparr>e_student_id = None, e_present = None, e_notes = None\<rparr>,
                ex_entry 999 False]) =
     (ex_db1,
      Bulk ''Processed 1 attendance records'' [(to_dict ex_row)\<lparr>d_id := None\<rparr>]
        [''Error processing student unknown: '' @ [CHR 0x27] @ ''student_id'' @ [CHR 0x27],
         ''Student 999 not found''],
      201) \<and>
   create_bulk_attendance ex_env ex_db (ex_batch [ex_entry 1 True, NonObj]) =
     (ex_db, Failure AttributeError, 500)"
  by code_simp






section \<open>The list and update operations\<close>

text \<open>
  C9. In the list operation a \<^verbatim>\<open>student_id\<close> or \<^verbatim>\<open>class_id\<close> parameter with the value 0
  is treated as if the parameter were absent: the answer is the one without that filter,
  and with both at 0 and no date it is the whole table.
\<close>

theorem get_attendances_zero_filter:
  "get_attendances env db (args\<lparr>q_student_id := Some 0\<rparr>) =
     get_attendances env db (args\<lparr>q_student_id := None\<rparr>) \<and>
   get_attendances env db (args\<lparr>q_class_id := Some 0\<rparr>) =
     get_attendances env db (args\<lparr>q_class_id := None\<rparr>) \<and>
   get_attendances env db \<lparr>q_student_id = Some 0, q_class_id = Some 0, q_date = None\<rparr> =
     (Listing (map to_dict (attendances db)), 200)"
  by (simp add: get_attendances_def query_all_def)



end
